theory Spec2Isabelle
  imports Main "HOL-Library.AList"
begin

section \<open>Values decoded from shadow messages\<close>

text \<open>
  The shadow client hands the handlers what Python's JSON decoder produced: \<open>None\<close>, a
  \<open>bool\<close>, a number, a \<open>str\<close>, a \<open>list\<close> or a \<open>dict\<close> keyed by strings. A \<open>dict\<close> is an
  association list in insertion order (the order \<open>.items()\<close> iterates in). Numbers are
  integers here; no handler does arithmetic on them.
\<close>

datatype json =
    JNull
  | JBool bool
  | JNum int
  | JStr string
  | JArr "json list"
  | JObj "(string \<times> json) list"

datatype error = ValueError | AttributeError

text \<open>Python truth value testing, as used by \<open>if x\<close>, \<open>x or y\<close> and \<open>a if x else b\<close>.\<close>

fun truthy :: "json \<Rightarrow> bool" where
  "truthy JNull = False"
| "truthy (JBool b) = b"
| "truthy (JNum n) = (n \<noteq> 0)"
| "truthy (JStr s) = (s \<noteq> [])"
| "truthy (JArr xs) = (xs \<noteq> [])"
| "truthy (JObj kvs) = (kvs \<noteq> [])"

text \<open>
  \<open>x.get(key, default)\<close>: a \<open>dict\<close> answers with the stored value or the default; every
  other decoded value has no attribute \<open>get\<close> and the call raises \<open>AttributeError\<close>.
\<close>

fun py_get :: "json \<Rightarrow> string \<Rightarrow> json \<Rightarrow> error + json" where
  "py_get (JObj kvs) key dflt = (case map_of kvs key of None \<Rightarrow> Inr dflt | Some v \<Rightarrow> Inr v)"
| "py_get _ key dflt = Inl AttributeError"

text \<open>
  Python's \<open>==\<close> on decoded values: \<open>True == 1\<close> and \<open>False == 0\<close> hold, lists compare
  element by element, dicts compare as finite maps, values of different kinds differ.
\<close>

lemma json_size_elem: "x \<in> set xs \<Longrightarrow> size (x::json) < Suc (size_list size xs)"
  by (induction xs) auto

lemma json_size_zip_left:
  "(x, y) \<in> set (zip xs ys) \<Longrightarrow> size (x::json) < Suc (size_list size xs)"
  by (rule json_size_elem) (rule set_zip_leftD)

lemma json_size_value:
  "(k, v) \<in> set kvs \<Longrightarrow> size (v::json) < Suc (size_list (size_prod (\<lambda>_. 0) size) kvs)"
  by (induction kvs) auto

function py_eq :: "json \<Rightarrow> json \<Rightarrow> bool" where
  "py_eq JNull b = (case b of JNull \<Rightarrow> True | _ \<Rightarrow> False)"
| "py_eq (JBool a) b =
     (case b of JBool c \<Rightarrow> a = c | JNum n \<Rightarrow> (if a then 1 else 0) = n | _ \<Rightarrow> False)"
| "py_eq (JNum m) b =
     (case b of JBool c \<Rightarrow> m = (if c then 1 else 0) | JNum n \<Rightarrow> m = n | _ \<Rightarrow> False)"
| "py_eq (JStr s) b = (case b of JStr t \<Rightarrow> s = t | _ \<Rightarrow> False)"
| "py_eq (JArr xs) b =
     (case b of
        JArr ys \<Rightarrow> length xs = length ys \<and> list_all (\<lambda>(x, y). py_eq x y) (zip xs ys)
      | _ \<Rightarrow> False)"
| "py_eq (JObj kvs) b =
     (case b of
        JObj kws \<Rightarrow>
          length kvs = length kws \<and>
          list_all (\<lambda>(k, v). case map_of kws k of None \<Rightarrow> False | Some w \<Rightarrow> py_eq v w) kvs
      | _ \<Rightarrow> False)"
  by pat_completeness auto
termination
  by (relation "measure (\<lambda>(a, b). size a)")
     (auto dest: json_size_zip_left json_size_value)

section \<open>The platform: GPIO lines and the shadow transport\<close>

text \<open>
  \<open>RPi.GPIO\<close> and the AWS IoT SDK are not part of the repository. Their behaviour is a
  parameter: a hardware state \<open>'h\<close> that \<open>GPIO.output\<close> transforms and \<open>GPIO.input\<close>
  observes (so a relay that does not follow the written level is a platform like any
  other), and a transport state \<open>'n\<close> on which each request either returns or raises
  within its ten-second \<open>future.result(timeout=10)\<close>. A GPIO call is taken to return,
  and reading a line leaves the hardware state as it is.
\<close>

datatype level = LOW | HIGH

datatype outcome = Acked | TimedOut | TransportError

text \<open>
  A reported-state document \<open>{kind: {'is_active': v}, ...}\<close>: one entry \<open>(kind, v)\<close> per
  key. Every value the controllers store under \<open>'is_active'\<close> is the \<open>bool\<close> returned by
  \<open>get_state\<close>.
\<close>

type_synonym payload = "(string \<times> bool) list"

datatype subscription = DeltaUpdated | GetAccepted | UpdateAccepted

record ('h, 'n) platform =
  gpio_output :: "nat \<Rightarrow> level \<Rightarrow> 'h \<Rightarrow> 'h"
  gpio_input :: "nat \<Rightarrow> 'h \<Rightarrow> level"
  gpio_cleanup :: "'h \<Rightarrow> 'h"
  publish_update_shadow :: "payload \<Rightarrow> 'n \<Rightarrow> outcome \<times> 'n"
  publish_get_shadow :: "'n \<Rightarrow> outcome \<times> 'n"
  subscribe_to :: "subscription \<Rightarrow> 'n \<Rightarrow> outcome \<times> 'n"

text \<open>What the device did, in order: every GPIO access and every shadow request.\<close>

datatype event =
    GpioOutput nat level
  | GpioInput nat level
  | GpioCleanup
  | UpdateShadow payload outcome
  | GetShadow outcome
  | Subscribe subscription outcome

record ('h, 'n) device =
  hw :: 'h
  net :: 'n
  trace :: "event list"

section \<open>equipment_controller.py\<close>

record equipment =
  pin :: nat
  name :: string

definition equipment_config :: "(string \<times> equipment) list" where
  "equipment_config =
     [(''blower'', \<lparr>pin = 17, name = ''Blower''\<rparr>),
      (''vibrofeeder'', \<lparr>pin = 27, name = ''Vibrofeeder''\<rparr>)]"

definition get_state ::
  "('h, 'n) platform \<Rightarrow> string \<Rightarrow> ('h, 'n) device \<Rightarrow> (error + bool) \<times> ('h, 'n) device" where
  "get_state pf equipment_type s =
     (case map_of equipment_config equipment_type of
        None \<Rightarrow> (Inl ValueError, s)
      | Some cfg \<Rightarrow>
          (let gpio_value = gpio_input pf (pin cfg) (hw s)
           in (Inr (gpio_value = LOW),
               s\<lparr>trace := trace s @ [GpioInput (pin cfg) gpio_value]\<rparr>)))"

definition set_state ::
  "('h, 'n) platform \<Rightarrow> string \<Rightarrow> json \<Rightarrow> ('h, 'n) device \<Rightarrow>
     (error + bool) \<times> ('h, 'n) device" where
  "set_state pf equipment_type is_active s =
     (case map_of equipment_config equipment_type of
        None \<Rightarrow> (Inl ValueError, s)
      | Some cfg \<Rightarrow>
          (let gpio_value = (if truthy is_active then LOW else HIGH)
           in get_state pf equipment_type
                (s\<lparr>hw := gpio_output pf (pin cfg) gpio_value (hw s),
                   trace := trace s @ [GpioOutput (pin cfg) gpio_value]\<rparr>)))"






section \<open>shadow_device_controller.py\<close>

text \<open>
  \<open>_update_shadow_reported_state\<close> builds the request, publishes it and waits for the
  acknowledgement inside one \<open>try\<close>; whatever is raised there (no shadow client yet, a
  transport error, the timeout) is logged and swallowed, so the method always returns.
\<close>

definition update_shadow_reported_state ::
  "('h, 'n) platform \<Rightarrow> payload \<Rightarrow> ('h, 'n) device \<Rightarrow> ('h, 'n) device" where
  "update_shadow_reported_state pf states s =
     (case publish_update_shadow pf states (net s) of
        (result, net') \<Rightarrow> s\<lparr>net := net', trace := trace s @ [UpdateShadow states result]\<rparr>)"


text \<open>
  The body of the \<open>for\<close> loop of \<open>_process_shadow_delta\<close>, with \<open>updated_states\<close> as the
  accumulator. \<open>Inl\<close> is an exception leaving the loop.
\<close>

fun process_shadow_delta_loop ::
  "('h, 'n) platform \<Rightarrow> (string \<times> json) list \<Rightarrow> payload \<Rightarrow> ('h, 'n) device \<Rightarrow>
     (error + payload) \<times> ('h, 'n) device" where
  "process_shadow_delta_loop pf [] updated_states s = (Inr updated_states, s)"
| "process_shadow_delta_loop pf ((equipment_type, desired_state) # rest) updated_states s =
     (if equipment_type \<in> set [''blower'', ''vibrofeeder''] then
        (case py_get desired_state ''is_active'' (JBool False) of
           Inl e \<Rightarrow> (Inl e, s)
         | Inr desired_active \<Rightarrow>
             (case set_state pf equipment_type desired_active s of
                (Inl e, s1) \<Rightarrow> (Inl e, s1)
              | (Inr actual_state, s1) \<Rightarrow>
                  (case get_state pf equipment_type s1 of
                     (Inl e, s2) \<Rightarrow> (Inl e, s2)
                   | (Inr verified_state, s2) \<Rightarrow>
                       process_shadow_delta_loop pf rest
                         (AList.update equipment_type verified_state updated_states) s2)))
      else process_shadow_delta_loop pf rest updated_states s)"

text \<open>
  \<open>_process_shadow_delta\<close>: the loop runs inside \<open>try\<close>; an exception (also the one
  \<open>delta_state.items()\<close> raises when \<open>delta_state\<close> is no dict) is logged and the method
  returns without publishing.
\<close>

definition process_shadow_delta ::
  "('h, 'n) platform \<Rightarrow> json \<Rightarrow> ('h, 'n) device \<Rightarrow> ('h, 'n) device" where
  "process_shadow_delta pf delta_state s =
     (case delta_state of
        JObj items \<Rightarrow>
          (case process_shadow_delta_loop pf items [] s of
             (Inl e, s') \<Rightarrow> s'
           | (Inr updated_states, s') \<Rightarrow>
               if updated_states \<noteq> [] then update_shadow_reported_state pf updated_states s'
               else s')
      | _ \<Rightarrow> s)"

definition on_shadow_delta_updated ::
  "('h, 'n) platform \<Rightarrow> json \<Rightarrow> ('h, 'n) device \<Rightarrow> ('h, 'n) device" where
  "on_shadow_delta_updated pf delta_state s = process_shadow_delta pf delta_state s"


text \<open>The \<open>state\<close> of a get-shadow response: its \<open>desired\<close> and \<open>reported\<close> documents.\<close>

record shadow_state =
  desired :: json
  reported :: json

record get_shadow_response =
  resp_state :: "shadow_state option"

fun on_get_shadow_accepted_loop ::
  "('h, 'n) platform \<Rightarrow> json \<Rightarrow> (string \<times> json) list \<Rightarrow> ('h, 'n) device \<Rightarrow>
     (error + unit) \<times> ('h, 'n) device" where
  "on_get_shadow_accepted_loop pf current_reported [] s = (Inr (), s)"
| "on_get_shadow_accepted_loop pf current_reported ((equipment_type, desired_state) # rest) s =
     (if equipment_type \<in> set [''blower'', ''vibrofeeder''] then
        (case py_get current_reported equipment_type (JObj []) of
           Inl e \<Rightarrow> (Inl e, s)
         | Inr current_state \<Rightarrow>
             (case py_get desired_state ''is_active'' JNull of
                Inl e \<Rightarrow> (Inl e, s)
              | Inr d \<Rightarrow>
                  (case py_get current_state ''is_active'' JNull of
                     Inl e \<Rightarrow> (Inl e, s)
                   | Inr c \<Rightarrow>
                       if \<not> py_eq d c then
                         on_get_shadow_accepted_loop pf current_reported rest
                           (process_shadow_delta pf (JObj [(equipment_type, desired_state)]) s)
                       else on_get_shadow_accepted_loop pf current_reported rest s)))
      else on_get_shadow_accepted_loop pf current_reported rest s)"

definition on_get_shadow_accepted ::
  "('h, 'n) platform \<Rightarrow> get_shadow_response \<Rightarrow> ('h, 'n) device \<Rightarrow> ('h, 'n) device" where
  "on_get_shadow_accepted pf response s =
     (case resp_state response of
        None \<Rightarrow> s
      | Some st \<Rightarrow>
          if truthy (desired st) then
            (let current_reported = (if truthy (reported st) then reported st else JObj [])
             in case desired st of
                  JObj items \<Rightarrow> snd (on_get_shadow_accepted_loop pf current_reported items s)
                | _ \<Rightarrow> s)
          else s)"

text \<open>
  \<open>update_equipment_state_and_shadow\<close>: the \<open>except\<close> branch answers with a fresh
  \<open>get_state\<close>, whose own exception is not caught.
\<close>

definition update_equipment_state_and_shadow ::
  "('h, 'n) platform \<Rightarrow> string \<Rightarrow> json \<Rightarrow> ('h, 'n) device \<Rightarrow>
     (error + bool) \<times> ('h, 'n) device" where
  "update_equipment_state_and_shadow pf equipment_type is_active s =
     (case set_state pf equipment_type is_active s of
        (Inr actual_state, s1) \<Rightarrow>
          (Inr actual_state,
           update_shadow_reported_state pf [(equipment_type, actual_state)] s1)
      | (Inl e, s1) \<Rightarrow> get_state pf equipment_type s1)"







section \<open>equipment_controller.py: set-up; app.py: start-up\<close>





section \<open>Observations on a trace\<close>

fun outputs :: "event list \<Rightarrow> (nat \<times> level) list" where
  "outputs [] = []"
| "outputs (GpioOutput p l # es) = (p, l) # outputs es"
| "outputs (e # es) = outputs es"


fun publishes :: "event list \<Rightarrow> payload list" where
  "publishes [] = []"
| "publishes (UpdateShadow states r # es) = states # publishes es"
| "publishes (e # es) = publishes es"

text \<open>
  The level last read on each pin since the pin was last written: a write forgets what
  was read on its pin before it, releasing the lines forgets every read.
\<close>

fun last_read :: "(nat \<rightharpoonup> level) \<Rightarrow> event list \<Rightarrow> (nat \<rightharpoonup> level)" where
  "last_read m [] = m"
| "last_read m (GpioInput p l # es) = last_read (m(p \<mapsto> l)) es"
| "last_read m (GpioOutput p l # es) = last_read (m(p := None)) es"
| "last_read m (GpioCleanup # es) = last_read Map.empty es"
| "last_read m (e # es) = last_read m es"

text \<open>
  An entry \<open>(kind, v)\<close> of a reported document is read back when the pin of \<open>kind\<close> was
  read after its last write and \<open>v\<close> says what that read returned.
\<close>

definition read_back :: "(nat \<rightharpoonup> level) \<Rightarrow> string \<times> bool \<Rightarrow> bool" where
  "read_back m kv =
     (case map_of equipment_config (fst kv) of
        None \<Rightarrow> False
      | Some cfg \<Rightarrow> (case m (pin cfg) of None \<Rightarrow> False | Some l \<Rightarrow> snd kv = (l = LOW)))"

fun reports_read_back :: "(nat \<rightharpoonup> level) \<Rightarrow> event list \<Rightarrow> bool" where
  "reports_read_back m [] = True"
| "reports_read_back m (UpdateShadow states r # es) =
     (list_all (read_back m) states \<and> reports_read_back m es)"
| "reports_read_back m (e # es) = reports_read_back (last_read m [e]) es"

section \<open>Two platforms to run the model on\<close>

text \<open>
  A relay board whose lines hold the last level written and a broker that acknowledges
  every request; and a board whose lines ignore every write, behind a broker that never
  answers.
\<close>

definition relay_board :: "(nat \<Rightarrow> level, nat) platform" where
  "relay_board =
     \<lparr>gpio_output = (\<lambda>p l h. h(p := l)),
      gpio_input = (\<lambda>p h. h p),
      gpio_cleanup = (\<lambda>h p. HIGH),
      publish_update_shadow = (\<lambda>states n. (Acked, Suc n)),
      publish_get_shadow = (\<lambda>n. (Acked, Suc n)),
      subscribe_to = (\<lambda>topic n. (Acked, Suc n))\<rparr>"

definition dead_board :: "(nat \<Rightarrow> level, nat) platform" where
  "dead_board =
     \<lparr>gpio_output = (\<lambda>p l h. h),
      gpio_input = (\<lambda>p h. h p),
      gpio_cleanup = (\<lambda>h. h),
      publish_update_shadow = (\<lambda>states n. (TimedOut, n)),
      publish_get_shadow = (\<lambda>n. (TimedOut, n)),
      subscribe_to = (\<lambda>topic n. (TimedOut, n))\<rparr>"

definition all_off :: "(nat \<Rightarrow> level, nat) device" where
  "all_off = \<lparr>hw = (\<lambda>p. HIGH), net = 0, trace = []\<rparr>"

section \<open>What the handlers are asked to do\<close>

text \<open>One pass of the loop body for a configured kind: write, read inside \<open>set_state\<close>, read again.\<close>

definition write_and_verify ::
  "('h, 'n) platform \<Rightarrow> equipment \<Rightarrow> bool \<Rightarrow> ('h, 'n) device \<Rightarrow> bool \<times> ('h, 'n) device" where
  "write_and_verify pf cfg on s =
     (let lv = (if on then LOW else HIGH);
          h = gpio_output pf (pin cfg) lv (hw s);
          l = gpio_input pf (pin cfg) h
      in (l = LOW,
          s\<lparr>hw := h,
            trace := trace s @ [GpioOutput (pin cfg) lv, GpioInput (pin cfg) l, GpioInput (pin cfg) l]\<rparr>))"

text \<open>The keys of a delta batch that name an equipment kind, in the order of the batch.\<close>

definition equipment_keys :: "json \<Rightarrow> string list" where
  "equipment_keys delta_state =
     (case delta_state of
        JObj items \<Rightarrow> filter (\<lambda>k. k \<in> set [''blower'', ''vibrofeeder'']) (map fst items)
      | _ \<Rightarrow> [])"

text \<open>\<open>isinstance(x, dict)\<close>.\<close>

fun is_dict :: "json \<Rightarrow> bool" where
  "is_dict (JObj kvs) = True"
| "is_dict _ = False"

text \<open>
  \<open>desired_state.get('is_active', False)\<close> as the truth value \<open>set_state\<close> makes of it:
  \<open>False\<close> for a dict without the entry, the truth value of the entry otherwise; no
  value when \<open>desired_state\<close> is no dict and \<open>.get\<close> raises.
\<close>

fun desired_of :: "json \<Rightarrow> bool option" where
  "desired_of (JObj kvs) =
     Some (case map_of kvs ''is_active'' of None \<Rightarrow> False | Some a \<Rightarrow> truthy a)"
| "desired_of _ = None"

text \<open>
  The GPIO writes a batch asks for, key by key: none for a key outside the
  configuration, one for a configured kind whose payload is a dict, at the level for
  \<open>desired_of\<close> the payload.
\<close>

definition expected_writes :: "(string \<times> json) list \<Rightarrow> (nat \<times> level) list" where
  "expected_writes items =
     concat (map (\<lambda>(k, d).
       case map_of equipment_config k of
         None \<Rightarrow> []
       | Some cfg \<Rightarrow>
           (case desired_of d of
              None \<Rightarrow> []
            | Some on \<Rightarrow> [(pin cfg, if on then LOW else HIGH)])) items)"

text \<open>
  Carrying out a list of writes on the hardware, each followed by two reads of the line
  written: the hardware afterwards, the GPIO accesses in order, and for each write
  whether the line read back as active.
\<close>

fun applied ::
  "('h, 'n) platform \<Rightarrow> (nat \<times> level) list \<Rightarrow> 'h \<Rightarrow> 'h \<times> event list \<times> bool list" where
  "applied pf [] h = (h, [], [])"
| "applied pf ((p, lv) # ws) h =
     (let h1 = gpio_output pf p lv h;
          l = gpio_input pf p h1
      in case applied pf ws h1 of
           (h2, evs, vs) \<Rightarrow>
             (h2, GpioOutput p lv # GpioInput p l # GpioInput p l # evs, (l = LOW) # vs))"

text \<open>
  The test \<open>_on_get_shadow_accepted\<close> makes for one entry of \<open>desired\<close>, when none of
  its \<open>.get\<close> calls raises: the key is an equipment kind and the \<open>is_active\<close> of the
  desired entry differs from the \<open>is_active\<close> of the kind's entry in
  \<open>current_reported\<close>, where a kind without entry counts as \<open>{}\<close> and a missing
  \<open>is_active\<close> as \<open>None\<close>.
\<close>

definition pending :: "json \<Rightarrow> string \<times> json \<Rightarrow> bool" where
  "pending current_reported item =
     (case item of
        (k, d) \<Rightarrow>
          k \<in> set [''blower'', ''vibrofeeder''] \<and>
          (case py_get current_reported k (JObj []) of
             Inl e \<Rightarrow> False
           | Inr current_state \<Rightarrow>
               (case py_get d ''is_active'' JNull of
                  Inl e \<Rightarrow> False
                | Inr a \<Rightarrow>
                    (case py_get current_state ''is_active'' JNull of
                       Inl e \<Rightarrow> False
                     | Inr c \<Rightarrow> \<not> py_eq a c))))"

section \<open>The wording of the specification, for comparison\<close>



text \<open>
  The test of \<open>pending\<close> in the words of the specification: the kind is present in
  both sections and the two \<open>is_active\<close> values differ.
\<close>

definition spec_pending :: "json \<Rightarrow> string \<times> json \<Rightarrow> bool" where
  "spec_pending reported_doc item =
     (case item of
        (k, d) \<Rightarrow>
          k \<in> set [''blower'', ''vibrofeeder''] \<and>
          (case reported_doc of
             JObj rs \<Rightarrow>
               (case map_of rs k of
                  None \<Rightarrow> False
                | Some c \<Rightarrow>
                    (case py_get d ''is_active'' JNull of
                       Inl e \<Rightarrow> False
                     | Inr a \<Rightarrow>
                         (case py_get c ''is_active'' JNull of
                            Inl e \<Rightarrow> False
                          | Inr b \<Rightarrow> \<not> py_eq a b)))
           | _ \<Rightarrow> False))"


section \<open>One access to a configured line\<close>

lemma kind_known:
  "k \<in> set [''blower'', ''vibrofeeder''] \<Longrightarrow> \<exists>cfg. map_of equipment_config k = Some cfg"
  by (auto simp: equipment_config_def)

lemma kind_unknown:
  "k \<notin> set [''blower'', ''vibrofeeder''] \<Longrightarrow> map_of equipment_config k = None"
  by (auto simp: equipment_config_def)

lemma get_state_known:
  "map_of equipment_config k = Some cfg \<Longrightarrow>
   get_state pf k s =
     (Inr (gpio_input pf (pin cfg) (hw s) = LOW),
      s\<lparr>trace := trace s @ [GpioInput (pin cfg) (gpio_input pf (pin cfg) (hw s))]\<rparr>)"
  by (simp add: get_state_def Let_def)

lemma get_state_unknown:
  "map_of equipment_config k = None \<Longrightarrow> get_state pf k s = (Inl ValueError, s)"
  by (simp add: get_state_def)

lemma set_state_known:
  "map_of equipment_config k = Some cfg \<Longrightarrow>
   set_state pf k a s =
     (let lv = (if truthy a then LOW else HIGH); h = gpio_output pf (pin cfg) lv (hw s)
      in (Inr (gpio_input pf (pin cfg) h = LOW),
          s\<lparr>hw := h,
            trace := trace s @ [GpioOutput (pin cfg) lv, GpioInput (pin cfg) (gpio_input pf (pin cfg) h)]\<rparr>))"
  by (simp add: set_state_def get_state_def Let_def)

lemma set_state_unknown:
  "map_of equipment_config k = None \<Longrightarrow> set_state pf k a s = (Inl ValueError, s)"
  by (simp add: set_state_def)

section \<open>Traces and what was read back\<close>

lemma outputs_append: "outputs (xs @ ys) = outputs xs @ outputs ys"
  by (induction xs rule: outputs.induct) simp_all

lemma publishes_append: "publishes (xs @ ys) = publishes xs @ publishes ys"
  by (induction xs rule: publishes.induct) simp_all





section \<open>The loop of the delta handler\<close>

lemma kind_of_config:
  "map_of equipment_config k = Some cfg \<Longrightarrow> k \<in> set [''blower'', ''vibrofeeder'']"
  by (auto simp: equipment_config_def split: if_splits)

lemma pins_differ:
  "map_of equipment_config k = Some c \<Longrightarrow> map_of equipment_config k' = Some c' \<Longrightarrow>
   pin c = pin c' \<Longrightarrow> k = k'"
  by (auto simp: equipment_config_def split: if_splits)

lemma loop_known_key:
  assumes "map_of equipment_config k = Some cfg"
  shows "process_shadow_delta_loop pf ((k, d) # rest) upd s =
     (case py_get d ''is_active'' (JBool False) of
        Inl e \<Rightarrow> (Inl e, s)
      | Inr a \<Rightarrow>
          (case write_and_verify pf cfg (truthy a) s of
             (v, s2) \<Rightarrow> process_shadow_delta_loop pf rest (AList.update k v upd) s2))"
proof -
  have k: "k = ''blower'' \<or> k = ''vibrofeeder''"
    using kind_of_config [OF assms] by simp
  show ?thesis
    using k assms
    by (auto simp: set_state_known get_state_known write_and_verify_def Let_def
        split: sum.splits)
qed

lemma loop_unknown_key:
  assumes "k \<notin> set [''blower'', ''vibrofeeder'']"
  shows "process_shadow_delta_loop pf ((k, d) # rest) upd s =
         process_shadow_delta_loop pf rest upd s"
  using assms by simp

lemma read_back_same:
  "map_of equipment_config k = Some cfg \<Longrightarrow> read_back (m(pin cfg \<mapsto> l)) (k, l = LOW)"
  by (simp add: read_back_def)

lemma read_back_other:
  assumes "map_of equipment_config k = Some cfg" and "fst kv \<noteq> k" and "read_back m kv"
  shows "read_back (m(pin cfg \<mapsto> l)) kv"
proof (cases "map_of equipment_config (fst kv)")
  case None
  with assms(3) show ?thesis by (simp add: read_back_def)
next
  case (Some c')
  with assms(1,2) have "pin c' \<noteq> pin cfg"
    using pins_differ by blast
  with Some assms(3) show ?thesis by (simp add: read_back_def)
qed

lemma read_back_others:
  assumes "map_of equipment_config k = Some cfg" and "k \<notin> fst ` set upd"
    and "list_all (read_back m) upd"
  shows "list_all (read_back (m(pin cfg \<mapsto> l))) upd"
  using assms(2,3) read_back_other [OF assms(1)]
  by (induction upd) auto

lemma read_back_update:
  assumes "map_of equipment_config k = Some cfg"
  shows "distinct (map fst upd) \<Longrightarrow> list_all (read_back m) upd \<Longrightarrow>
         list_all (read_back (m(pin cfg \<mapsto> l))) (AList.update k (l = LOW) upd)"
proof (induction upd)
  case Nil
  then show ?case using read_back_same [OF assms, of m l] by (simp del: fun_upd_apply)
next
  case (Cons kv upd)
  show ?case
  proof (cases "fst kv = k")
    case True
    with Cons.prems have "k \<notin> fst ` set upd" and "list_all (read_back m) upd"
      by auto
    then have "list_all (read_back (m(pin cfg \<mapsto> l))) upd"
      using read_back_others [OF assms] by blast
    with True show ?thesis using read_back_same [OF assms, of m l] by (simp del: fun_upd_apply)
  next
    case False
    with Cons.prems have "read_back (m(pin cfg \<mapsto> l)) kv"
      using read_back_other [OF assms] by (simp del: fun_upd_apply)
    with False Cons show ?thesis by (simp del: fun_upd_apply)
  qed
qed

lemma process_shadow_delta_loop_read_back:
  "distinct (map fst upd) \<Longrightarrow> list_all (read_back m) upd \<Longrightarrow>
   \<exists>evs. trace (snd (process_shadow_delta_loop pf items upd s)) = trace s @ evs \<and>
         reports_read_back m evs \<and> publishes evs = [] \<and>
         (\<forall>upd'. fst (process_shadow_delta_loop pf items upd s) = Inr upd' \<longrightarrow>
            distinct (map fst upd') \<and> list_all (read_back (last_read m evs)) upd')"
proof (induction items arbitrary: m upd s)
  case Nil
  then show ?case by simp
next
  case (Cons item rest)
  obtain k d where item: "item = (k, d)" by (cases item)
  show ?case
  proof (cases "map_of equipment_config k")
    case None
    then have "k \<notin> set [''blower'', ''vibrofeeder'']"
      using kind_known by fastforce
    then have "process_shadow_delta_loop pf (item # rest) upd s =
               process_shadow_delta_loop pf rest upd s"
      unfolding item by (rule loop_unknown_key)
    then show ?thesis using Cons.IH [OF Cons.prems] by simp
  next
    case (Some cfg)
    note step = loop_known_key [OF Some, of pf d rest upd s]
    show ?thesis
    proof (cases "py_get d ''is_active'' (JBool False)")
      case (Inl e)
      with step item show ?thesis by simp
    next
      case (Inr a)
      obtain v s2 where wv: "write_and_verify pf cfg (truthy a) s = (v, s2)"
        by (cases "write_and_verify pf cfg (truthy a) s")
      define lv where "lv = (if truthy a then LOW else HIGH)"
      define l where "l = gpio_input pf (pin cfg) (gpio_output pf (pin cfg) lv (hw s))"
      from wv have v: "v = (l = LOW)"
        and tr: "trace s2 = trace s @ [GpioOutput (pin cfg) lv, GpioInput (pin cfg) l, GpioInput (pin cfg) l]"
        by (auto simp: write_and_verify_def Let_def lv_def l_def)
      let ?upd = "AList.update k v upd"
      let ?m = "m(pin cfg \<mapsto> l)"
      have d: "distinct (map fst ?upd)"
        using Cons.prems(1) by (rule distinct_update)
      have rb: "list_all (read_back ?m) ?upd"
        unfolding v using Some Cons.prems by (rule read_back_update)
      from Cons.IH [OF d rb, of s2] obtain evs where
        evs: "trace (snd (process_shadow_delta_loop pf rest ?upd s2)) = trace s2 @ evs"
          "reports_read_back ?m evs" "publishes evs = []"
          "\<forall>upd'. fst (process_shadow_delta_loop pf rest ?upd s2) = Inr upd' \<longrightarrow>
             distinct (map fst upd') \<and> list_all (read_back (last_read ?m evs)) upd'"
        by blast
      have eq: "process_shadow_delta_loop pf (item # rest) upd s =
                process_shadow_delta_loop pf rest ?upd s2"
        using step Inr wv item by simp
      let ?pre = "[GpioOutput (pin cfg) lv, GpioInput (pin cfg) l, GpioInput (pin cfg) l]"
      have lr: "last_read m ?pre = ?m" by simp
      have "trace (snd (process_shadow_delta_loop pf (item # rest) upd s)) = trace s @ (?pre @ evs)"
        using eq evs(1) tr by simp
      moreover have "reports_read_back m (?pre @ evs)"
        using evs(2) by simp
      moreover have "publishes (?pre @ evs) = []"
        using evs(3) by (simp add: publishes_append)
      moreover have "\<forall>upd'. fst (process_shadow_delta_loop pf (item # rest) upd s) = Inr upd' \<longrightarrow>
             distinct (map fst upd') \<and> list_all (read_back (last_read m (?pre @ evs))) upd'"
        using evs(4) eq by simp
      ultimately show ?thesis by blast
    qed
  qed
qed

section \<open>Every handler reports what it read\<close>

lemma process_shadow_delta_obj:
  "process_shadow_delta pf (JObj items) s =
     (case process_shadow_delta_loop pf items [] s of
        (Inl e, s') \<Rightarrow> s'
      | (Inr updated_states, s') \<Rightarrow>
          if updated_states \<noteq> [] then update_shadow_reported_state pf updated_states s'
          else s')"
  by (simp add: process_shadow_delta_def)

lemma process_shadow_delta_not_obj:
  "\<forall>items. delta_state \<noteq> JObj items \<Longrightarrow> process_shadow_delta pf delta_state s = s"
  by (cases delta_state) (auto simp: process_shadow_delta_def)

lemma update_shadow_reported_state_trace:
  "trace (update_shadow_reported_state pf states s) =
     trace s @ [UpdateShadow states (fst (publish_update_shadow pf states (net s)))]"
  by (simp add: update_shadow_reported_state_def split: prod.split)









section \<open>Keys and publishes of a batch\<close>

lemma process_shadow_delta_loop_keys:
  "fst (process_shadow_delta_loop pf items upd s) = Inr upd' \<Longrightarrow>
   fst ` set upd' = fst ` set upd \<union> {k \<in> fst ` set items. k \<in> set [''blower'', ''vibrofeeder'']}"
proof (induction items arbitrary: upd s)
  case Nil
  then show ?case by simp
next
  case (Cons item rest)
  obtain k d where item: "item = (k, d)" by (cases item)
  show ?case
  proof (cases "map_of equipment_config k")
    case None
    then have unk: "k \<notin> set [''blower'', ''vibrofeeder'']"
      using kind_known by fastforce
    then have "process_shadow_delta_loop pf (item # rest) upd s =
               process_shadow_delta_loop pf rest upd s"
      unfolding item by (rule loop_unknown_key)
    with Cons.prems have "fst (process_shadow_delta_loop pf rest upd s) = Inr upd'" by simp
    from Cons.IH [OF this] unk show ?thesis by (auto simp: item)
  next
    case (Some cfg)
    then have kn: "k \<in> set [''blower'', ''vibrofeeder'']" by (rule kind_of_config)
    note step = loop_known_key [OF Some, of pf d rest upd s]
    show ?thesis
    proof (cases "py_get d ''is_active'' (JBool False)")
      case (Inl e)
      with step item Cons.prems show ?thesis by simp
    next
      case (Inr a)
      obtain v s2 where wv: "write_and_verify pf cfg (truthy a) s = (v, s2)"
        by (cases "write_and_verify pf cfg (truthy a) s")
      have "process_shadow_delta_loop pf (item # rest) upd s =
            process_shadow_delta_loop pf rest (AList.update k v upd) s2"
        using step Inr wv item by simp
      with Cons.prems have "fst (process_shadow_delta_loop pf rest (AList.update k v upd) s2) = Inr upd'"
        by simp
      from Cons.IH [OF this] have
        "fst ` set upd' = fst ` set (AList.update k v upd) \<union>
           {k \<in> fst ` set rest. k \<in> set [''blower'', ''vibrofeeder'']}" .
      moreover have "fst ` set (AList.update k v upd) = {k} \<union> fst ` set upd"
        by (rule dom_update)
      ultimately show ?thesis using kn by (auto simp: item)
    qed
  qed
qed

lemma process_shadow_delta_loop_no_kind:
  "\<forall>k \<in> fst ` set items. k \<notin> set [''blower'', ''vibrofeeder''] \<Longrightarrow>
   process_shadow_delta_loop pf items upd s = (Inr upd, s)"
  by (induction items) auto

lemma process_shadow_delta_loop_publishes:
  "\<exists>evs. trace (snd (process_shadow_delta_loop pf items [] s)) = trace s @ evs \<and>
         publishes evs = []"
  using process_shadow_delta_loop_read_back [of "[]" Map.empty pf items s]
  by auto


section \<open>Batches whose payloads are dicts\<close>


lemma process_shadow_delta_single:
  assumes "map_of equipment_config k = Some cfg"
  shows "\<exists>l r.
     l = gpio_input pf (pin cfg)
           (gpio_output pf (pin cfg) (if truthy a then LOW else HIGH) (hw s)) \<and>
     hw (process_shadow_delta pf (JObj [(k, JObj [(''is_active'', a)])]) s) =
       gpio_output pf (pin cfg) (if truthy a then LOW else HIGH) (hw s) \<and>
     trace (process_shadow_delta pf (JObj [(k, JObj [(''is_active'', a)])]) s) =
       trace s @ [GpioOutput (pin cfg) (if truthy a then LOW else HIGH),
                  GpioInput (pin cfg) l, GpioInput (pin cfg) l,
                  UpdateShadow [(k, l = LOW)] r]"
  unfolding process_shadow_delta_obj loop_known_key [OF assms]
  by (simp add: write_and_verify_def Let_def update_shadow_reported_state_def
      split: prod.split)

section \<open>The full shadow document\<close>

lemma expected_writes_Cons:
  "expected_writes (item # rest) = expected_writes [item] @ expected_writes rest"
  by (simp add: expected_writes_def)

lemma expected_writes_Nil: "expected_writes [] = []"
  by (simp add: expected_writes_def)

lemma is_dict_get: "is_dict x \<Longrightarrow> \<exists>v. py_get x key dflt = Inr v"
  by (cases x) (simp_all split: option.split)

lemma pending_present:
  assumes "map_of rs k = Some c"
  shows "pending (JObj rs) (k, d) = spec_pending (JObj rs) (k, d)"
  using assms by (simp add: pending_def spec_pending_def)

section \<open>What a batch of well-formed payloads does\<close>

lemma desired_of_get:
  "desired_of d =
     (case py_get d ''is_active'' (JBool False) of Inl e \<Rightarrow> None | Inr a \<Rightarrow> Some (truthy a))"
  by (cases d) (simp_all split: option.split)

lemma applied_length: "applied pf ws h = (h', evs, vs) \<Longrightarrow> length vs = length ws"
proof (induction ws arbitrary: h h' evs vs)
  case Nil
  then show ?case by simp
next
  case (Cons w ws)
  obtain p lv where w: "w = (p, lv)" by (cases w)
  obtain h2 evs2 vs2 where r: "applied pf ws (gpio_output pf p lv h) = (h2, evs2, vs2)"
    by (cases "applied pf ws (gpio_output pf p lv h)")
  from Cons.IH [OF r] Cons.prems r show ?case
    by (auto simp: w Let_def)
qed

lemma applied_hw: "fst (applied pf ws h) = fold (\<lambda>(p, lv). gpio_output pf p lv) ws h"
proof (induction ws arbitrary: h)
  case Nil
  then show ?case by simp
next
  case (Cons w ws)
  obtain p lv where w: "w = (p, lv)" by (cases w)
  obtain h2 evs2 vs2 where r: "applied pf ws (gpio_output pf p lv h) = (h2, evs2, vs2)"
    by (cases "applied pf ws (gpio_output pf p lv h)")
  from Cons.IH [of "gpio_output pf p lv h"] r show ?case
    by (simp add: w Let_def)
qed

lemma applied_outputs: "applied pf ws h = (h', evs, vs) \<Longrightarrow> outputs evs = ws"
proof (induction ws arbitrary: h h' evs vs)
  case Nil
  then show ?case by simp
next
  case (Cons w ws)
  obtain p lv where w: "w = (p, lv)" by (cases w)
  obtain h2 evs2 vs2 where r: "applied pf ws (gpio_output pf p lv h) = (h2, evs2, vs2)"
    by (cases "applied pf ws (gpio_output pf p lv h)")
  from Cons.IH [OF r] Cons.prems r show ?case
    by (auto simp: w Let_def)
qed

lemma applied_publishes: "applied pf ws h = (h', evs, vs) \<Longrightarrow> publishes evs = []"
proof (induction ws arbitrary: h h' evs vs)
  case Nil
  then show ?case by simp
next
  case (Cons w ws)
  obtain p lv where w: "w = (p, lv)" by (cases w)
  obtain h2 evs2 vs2 where r: "applied pf ws (gpio_output pf p lv h) = (h2, evs2, vs2)"
    by (cases "applied pf ws (gpio_output pf p lv h)")
  from Cons.IH [OF r] Cons.prems r show ?case
    by (auto simp: w Let_def)
qed

lemma equipment_keys_Cons:
  "equipment_keys (JObj ((k, d) # rest)) =
     (if k \<in> set [''blower'', ''vibrofeeder''] then k # equipment_keys (JObj rest)
      else equipment_keys (JObj rest))"
  by (simp add: equipment_keys_def)

lemma process_shadow_delta_loop_applied:
  assumes "\<forall>(k, d) \<in> set items. k \<in> set [''blower'', ''vibrofeeder''] \<longrightarrow> is_dict d"
  shows "process_shadow_delta_loop pf items upd s =
     (case applied pf (expected_writes items) (hw s) of
        (h, evs, vs) \<Rightarrow>
          (Inr (fold (\<lambda>(k, v). AList.update k v) (zip (equipment_keys (JObj items)) vs) upd),
           s\<lparr>hw := h, trace := trace s @ evs\<rparr>))"
  using assms
proof (induction items arbitrary: upd s)
  case Nil
  then show ?case by (simp add: expected_writes_def equipment_keys_def)
next
  case (Cons item rest)
  obtain k d where item: "item = (k, d)" by (cases item)
  from Cons.prems have rest:
    "\<forall>(k, d) \<in> set rest. k \<in> set [''blower'', ''vibrofeeder''] \<longrightarrow> is_dict d"
    by simp
  note ih = Cons.IH [OF rest]
  show ?case
  proof (cases "map_of equipment_config k")
    case None
    then have unk: "k \<notin> set [''blower'', ''vibrofeeder'']"
      using kind_known by fastforce
    have ew: "expected_writes (item # rest) = expected_writes rest"
      using None by (simp add: expected_writes_def item)
    have ks: "equipment_keys (JObj (item # rest)) = equipment_keys (JObj rest)"
      using unk by (simp add: item equipment_keys_Cons)
    have "process_shadow_delta_loop pf (item # rest) upd s =
          process_shadow_delta_loop pf rest upd s"
      unfolding item using unk by (rule loop_unknown_key)
    then show ?thesis unfolding ew ks using ih [of upd s] by simp
  next
    case (Some cfg)
    then have kn: "k \<in> set [''blower'', ''vibrofeeder'']" by (rule kind_of_config)
    with Cons.prems have "is_dict d" by (auto simp: item)
    then obtain a where a: "py_get d ''is_active'' (JBool False) = Inr a"
      using is_dict_get by blast
    then have des: "desired_of d = Some (truthy a)"
      by (simp add: desired_of_get)
    define lv where "lv = (if truthy a then LOW else HIGH)"
    define h1 where "h1 = gpio_output pf (pin cfg) lv (hw s)"
    define l where "l = gpio_input pf (pin cfg) h1"
    define s2 where "s2 = s\<lparr>hw := h1,
      trace := trace s @ [GpioOutput (pin cfg) lv, GpioInput (pin cfg) l, GpioInput (pin cfg) l]\<rparr>"
    obtain h2 evs vs where ap: "applied pf (expected_writes rest) h1 = (h2, evs, vs)"
      by (cases "applied pf (expected_writes rest) h1")
    have ew: "expected_writes (item # rest) = (pin cfg, lv) # expected_writes rest"
      using Some des by (simp add: expected_writes_def item lv_def)
    have ks: "equipment_keys (JObj (item # rest)) = k # equipment_keys (JObj rest)"
      using kn by (simp add: item equipment_keys_Cons)
    have step: "process_shadow_delta_loop pf (item # rest) upd s =
                process_shadow_delta_loop pf rest (AList.update k (l = LOW) upd) s2"
      unfolding item loop_known_key [OF Some]
      by (simp add: a write_and_verify_def Let_def lv_def h1_def l_def s2_def)
    have hw2: "hw s2 = h1" by (simp add: s2_def)
    have lhs: "process_shadow_delta_loop pf (item # rest) upd s =
          (Inr (fold (\<lambda>(k, v). AList.update k v) (zip (equipment_keys (JObj rest)) vs)
                  (AList.update k (l = LOW) upd)),
           s2\<lparr>hw := h2, trace := trace s2 @ evs\<rparr>)"
      unfolding step using ih [of "AList.update k (l = LOW) upd" s2] ap hw2 by simp
    have rhs: "applied pf (expected_writes (item # rest)) (hw s) =
          (h2, GpioOutput (pin cfg) lv # GpioInput (pin cfg) l # GpioInput (pin cfg) l # evs,
           (l = LOW) # vs)"
      unfolding ew using ap by (simp add: Let_def h1_def l_def)
    show ?thesis
      unfolding lhs rhs ks by (simp add: s2_def)
  qed
qed

lemma update_fresh: "k \<notin> fst ` set al \<Longrightarrow> AList.update k v al = al @ [(k, v)]"
  by (induction al) auto

lemma fold_update_fresh:
  "distinct (map fst kvs) \<Longrightarrow> fst ` set kvs \<inter> fst ` set upd = {} \<Longrightarrow>
   fold (\<lambda>(k, v). AList.update k v) kvs upd = upd @ kvs"
proof (induction kvs arbitrary: upd)
  case Nil
  then show ?case by simp
next
  case (Cons kv kvs)
  obtain k v where kv: "kv = (k, v)" by (cases kv)
  from Cons.prems have fresh: "k \<notin> fst ` set upd" by (auto simp: kv)
  then have u: "AList.update k v upd = upd @ [(k, v)]" by (rule update_fresh)
  from Cons.prems have d: "distinct (map fst kvs)"
    and "fst ` set kvs \<inter> fst ` set (upd @ [(k, v)]) = {}"
    by (auto simp: kv)
  from Cons.IH [OF this] show ?case by (simp add: kv u)
qed



lemma expected_writes_length:
  assumes "\<forall>(k, d) \<in> set items. k \<in> set [''blower'', ''vibrofeeder''] \<longrightarrow> is_dict d"
  shows "length (expected_writes items) = length (equipment_keys (JObj items))"
  using assms
proof (induction items)
  case Nil
  then show ?case by (simp add: expected_writes_def equipment_keys_def)
next
  case (Cons item rest)
  obtain k d where item: "item = (k, d)" by (cases item)
  from Cons have ih: "length (expected_writes rest) = length (equipment_keys (JObj rest))"
    by simp
  show ?case
  proof (cases "map_of equipment_config k")
    case None
    then have "k \<notin> set [''blower'', ''vibrofeeder'']" using kind_known by fastforce
    with None ih show ?thesis
      by (simp add: item equipment_keys_Cons expected_writes_Cons [of "(k, d)" rest])
         (simp add: expected_writes_def)
  next
    case (Some cfg)
    then have kn: "k \<in> set [''blower'', ''vibrofeeder'']" by (rule kind_of_config)
    with Cons.prems have "is_dict d" by (auto simp: item)
    then obtain kvs where "d = JObj kvs" by (cases d) simp_all
    with Some kn ih show ?thesis
      by (simp add: item equipment_keys_Cons expected_writes_Cons [of "(k, d)" rest])
         (simp add: expected_writes_def)
  qed
qed

lemma process_shadow_delta_applied:
  assumes "\<forall>(k, d) \<in> set items. k \<in> set [''blower'', ''vibrofeeder''] \<longrightarrow> is_dict d"
    and "distinct (map fst items)"
    and "\<exists>k \<in> set (map fst items). k \<in> set [''blower'', ''vibrofeeder'']"
  shows "process_shadow_delta pf (JObj items) s =
     (case applied pf (expected_writes items) (hw s) of
        (h, evs, vs) \<Rightarrow>
          (case publish_update_shadow pf (zip (equipment_keys (JObj items)) vs) (net s) of
             (r, n) \<Rightarrow>
               s\<lparr>hw := h, net := n,
                 trace := trace s @ evs @
                   [UpdateShadow (zip (equipment_keys (JObj items)) vs) r]\<rparr>))"
    and "length (snd (snd (applied pf (expected_writes items) (hw s)))) =
         length (equipment_keys (JObj items))"
proof -
  obtain h evs vs where ap: "applied pf (expected_writes items) (hw s) = (h, evs, vs)"
    by (cases "applied pf (expected_writes items) (hw s)")
  let ?keys = "equipment_keys (JObj items)"
  have len: "length vs = length ?keys"
    using applied_length [OF ap] expected_writes_length [OF assms(1)] by simp
  then show "length (snd (snd (applied pf (expected_writes items) (hw s)))) = length ?keys"
    using ap by simp
  have dk: "distinct ?keys"
    using assms(2) by (simp add: equipment_keys_def)
  have "distinct (map fst (zip ?keys vs))"
    using dk len by simp
  then have fold: "fold (\<lambda>(k, v). AList.update k v) (zip ?keys vs) [] = zip ?keys vs"
    using fold_update_fresh [of "zip ?keys vs" "[]"] by simp
  from assms(3) have "?keys \<noteq> []"
    by (auto simp: equipment_keys_def filter_empty_conv)
  with len have ne: "zip ?keys vs \<noteq> []"
    by (cases ?keys; cases vs) simp_all
  have loop: "process_shadow_delta_loop pf items [] s =
        (Inr (zip ?keys vs), s\<lparr>hw := h, trace := trace s @ evs\<rparr>)"
    using process_shadow_delta_loop_applied [OF assms(1), of pf "[]" s] ap fold by simp
  show "process_shadow_delta pf (JObj items) s =
     (case applied pf (expected_writes items) (hw s) of
        (h, evs, vs) \<Rightarrow>
          (case publish_update_shadow pf (zip (equipment_keys (JObj items)) vs) (net s) of
             (r, n) \<Rightarrow>
               s\<lparr>hw := h, net := n,
                 trace := trace s @ evs @
                   [UpdateShadow (zip (equipment_keys (JObj items)) vs) r]\<rparr>))"
    unfolding process_shadow_delta_obj loop ap
    using ne by (simp add: update_shadow_reported_state_def split: prod.split)
qed

section \<open>One cycle for each pending kind\<close>

lemma process_shadow_delta_cycle:
  assumes "k \<in> set [''blower'', ''vibrofeeder'']" and "is_dict d"
  shows "\<exists>h evs v r n.
     applied pf (expected_writes [(k, d)]) (hw s) = (h, evs, [v]) \<and>
     publish_update_shadow pf [(k, v)] (net s) = (r, n) \<and>
     process_shadow_delta pf (JObj [(k, d)]) s =
       s\<lparr>hw := h, net := n, trace := trace s @ evs @ [UpdateShadow [(k, v)] r]\<rparr>"
proof -
  have h1: "\<forall>(k', d') \<in> set [(k, d)]. k' \<in> set [''blower'', ''vibrofeeder''] \<longrightarrow> is_dict d'"
    using assms(2) by simp
  have h2: "distinct (map fst [(k, d)])" by simp
  have h3: "\<exists>k' \<in> set (map fst [(k, d)]). k' \<in> set [''blower'', ''vibrofeeder'']"
    using assms(1) by simp
  have keys: "equipment_keys (JObj [(k, d)]) = [k]"
    using assms(1) by (simp add: equipment_keys_def)
  obtain h evs vs where ap: "applied pf (expected_writes [(k, d)]) (hw s) = (h, evs, vs)"
    by (cases "applied pf (expected_writes [(k, d)]) (hw s)")
  from process_shadow_delta_applied(2) [OF h1 h2 h3, of pf s] ap keys
  have "length vs = 1" by simp
  then obtain v where vs: "vs = [v]"
    by (cases vs) simp_all
  obtain r n where pub: "publish_update_shadow pf [(k, v)] (net s) = (r, n)"
    by (cases "publish_update_shadow pf [(k, v)] (net s)")
  from process_shadow_delta_applied(1) [OF h1 h2 h3, of pf s] ap keys vs pub
  have "process_shadow_delta pf (JObj [(k, d)]) s =
       s\<lparr>hw := h, net := n, trace := trace s @ evs @ [UpdateShadow [(k, v)] r]\<rparr>"
    by simp
  with ap vs pub show ?thesis by blast
qed

lemma pending_kind: "pending cr (k, d) \<Longrightarrow> k \<in> set [''blower'', ''vibrofeeder'']"
  by (simp add: pending_def)

lemma on_get_shadow_accepted_loop_fold:
  assumes "\<forall>(k, d) \<in> set items. k \<in> set [''blower'', ''vibrofeeder''] \<longrightarrow>
             is_dict d \<and> (\<exists>c. py_get cr k (JObj []) = Inr c \<and> is_dict c)"
  shows "on_get_shadow_accepted_loop pf cr items s =
     (Inr (), fold (\<lambda>(k, d). process_shadow_delta pf (JObj [(k, d)]))
                (filter (pending cr) items) s)"
  using assms
proof (induction items arbitrary: s)
  case Nil
  then show ?case by simp
next
  case (Cons item rest)
  obtain k d where item: "item = (k, d)" by (cases item)
  from Cons.prems have rest:
    "\<forall>(k, d) \<in> set rest. k \<in> set [''blower'', ''vibrofeeder''] \<longrightarrow>
       is_dict d \<and> (\<exists>c. py_get cr k (JObj []) = Inr c \<and> is_dict c)"
    by simp
  note ih = Cons.IH [OF rest]
  have skip: "on_get_shadow_accepted_loop pf cr (item # rest) s =
          on_get_shadow_accepted_loop pf cr rest s" if "\<not> pending cr (k, d)"
  proof (cases "k \<in> set [''blower'', ''vibrofeeder'']")
    case False
    then show ?thesis by (simp add: item)
  next
    case True
    with Cons.prems obtain cs where dict: "is_dict d"
      and cs: "py_get cr k (JObj []) = Inr cs" and "is_dict cs"
      by (auto simp: item)
    then obtain c where c: "py_get cs ''is_active'' JNull = Inr c"
      using is_dict_get by blast
    from is_dict_get [OF dict] obtain a where a: "py_get d ''is_active'' JNull = Inr a"
      by blast
    from that True cs a c have "py_eq a c" by (auto simp: pending_def)
    with True cs a c show ?thesis by (simp add: item)
  qed
  have take: "on_get_shadow_accepted_loop pf cr (item # rest) s =
          on_get_shadow_accepted_loop pf cr rest (process_shadow_delta pf (JObj [(k, d)]) s)"
    if "pending cr (k, d)"
    using that by (auto simp: item pending_def split: sum.splits)
  show ?case
  proof (cases "pending cr (k, d)")
    case False
    with skip [OF False] ih [of s] show ?thesis by (simp add: item)
  next
    case True
    with take [OF True] ih [of "process_shadow_delta pf (JObj [(k, d)]) s"]
    show ?thesis by (simp add: item)
  qed
qed

lemma cycles_run:
  assumes "\<forall>(k, d) \<in> set xs. k \<in> set [''blower'', ''vibrofeeder''] \<and> is_dict d"
  shows "hw (fold (\<lambda>(k, d). process_shadow_delta pf (JObj [(k, d)])) xs s) =
           fold (\<lambda>(p, lv). gpio_output pf p lv) (expected_writes xs) (hw s) \<and>
         (\<exists>evs. trace (fold (\<lambda>(k, d). process_shadow_delta pf (JObj [(k, d)])) xs s) =
                  trace s @ evs \<and>
                outputs evs = expected_writes xs \<and>
                map (map fst) (publishes evs) = map (\<lambda>(k, d). [k]) xs)"
  using assms
proof (induction xs arbitrary: s)
  case Nil
  then show ?case by (simp add: expected_writes_Nil)
next
  case (Cons x xs)
  obtain k d where x: "x = (k, d)" by (cases x)
  from Cons.prems have kn: "k \<in> set [''blower'', ''vibrofeeder'']" and dict: "is_dict d"
    and rest: "\<forall>(k, d) \<in> set xs. k \<in> set [''blower'', ''vibrofeeder''] \<and> is_dict d"
    by (auto simp: x)
  let ?s1 = "process_shadow_delta pf (JObj [(k, d)]) s"
  from process_shadow_delta_cycle [OF kn dict, of pf s] obtain h evs v r n where
    ap: "applied pf (expected_writes [(k, d)]) (hw s) = (h, evs, [v])"
    and s1: "?s1 = s\<lparr>hw := h, net := n, trace := trace s @ evs @ [UpdateShadow [(k, v)] r]\<rparr>"
    by blast
  have h: "hw ?s1 = fold (\<lambda>(p, lv). gpio_output pf p lv) (expected_writes [(k, d)]) (hw s)"
    using applied_hw [of pf "expected_writes [(k, d)]" "hw s"] ap s1 by simp
  have o: "outputs evs = expected_writes [(k, d)]" using ap by (rule applied_outputs)
  have p: "publishes evs = []" using ap by (rule applied_publishes)
  from Cons.IH [OF rest, of ?s1] obtain evs2 where
    ih: "hw (fold (\<lambda>(k, d). process_shadow_delta pf (JObj [(k, d)])) xs ?s1) =
           fold (\<lambda>(p, lv). gpio_output pf p lv) (expected_writes xs) (hw ?s1)"
      "trace (fold (\<lambda>(k, d). process_shadow_delta pf (JObj [(k, d)])) xs ?s1) = trace ?s1 @ evs2"
      "outputs evs2 = expected_writes xs"
      "map (map fst) (publishes evs2) = map (\<lambda>(k, d). [k]) xs"
    by blast
  have ew: "expected_writes (x # xs) = expected_writes [(k, d)] @ expected_writes xs"
    unfolding x by (rule expected_writes_Cons)
  let ?evs = "evs @ [UpdateShadow [(k, v)] r] @ evs2"
  have 1: "hw (fold (\<lambda>(k, d). process_shadow_delta pf (JObj [(k, d)])) (x # xs) s) =
           fold (\<lambda>(p, lv). gpio_output pf p lv) (expected_writes (x # xs)) (hw s)"
    unfolding ew using ih(1) h by (simp add: x)
  have 2: "trace (fold (\<lambda>(k, d). process_shadow_delta pf (JObj [(k, d)])) (x # xs) s) =
           trace s @ ?evs"
    using ih(2) s1 by (simp add: x)
  have 3: "outputs ?evs = expected_writes (x # xs)"
    unfolding ew using o ih(3) by (simp add: outputs_append)
  have 4: "map (map fst) (publishes ?evs) = map (\<lambda>(k, d). [k]) (x # xs)"
    using p ih(4) by (simp add: publishes_append x)
  show ?case
    by (rule conjI [OF 1], rule exI [of _ ?evs]) (intro conjI 2 3 4)
qed

section \<open>Start-up\<close>









section \<open>The control path\<close>

text \<open>
  Claim C2. For a kind of the configuration and a boolean \<open>d\<close>,
  \<open>update_equipment_state_and_shadow\<close> writes the level for \<open>d\<close> to the kind's pin,
  reads the pin back and returns what it read, which is also what a \<open>get_state\<close> on the
  resulting device returns; it then issues one reported-state publish for that kind
  with the value read. The platform is arbitrary, so the returned value is the same
  whether the publish is acknowledged, fails or times out.
\<close>

theorem update_equipment_state_and_shadow_returns_read_back:
  assumes "equipment_type \<in> set [''blower'', ''vibrofeeder'']"
  shows "\<exists>cfg actual s'.
     map_of equipment_config equipment_type = Some cfg \<and>
     update_equipment_state_and_shadow pf equipment_type (JBool d) s = (Inr actual, s') \<and>
     hw s' = gpio_output pf (pin cfg) (if d then LOW else HIGH) (hw s) \<and>
     actual = (gpio_input pf (pin cfg) (hw s') = LOW) \<and>
     fst (get_state pf equipment_type s') = Inr actual \<and>
     trace s' = trace s @
       [GpioOutput (pin cfg) (if d then LOW else HIGH),
        GpioInput (pin cfg) (gpio_input pf (pin cfg) (hw s')),
        UpdateShadow [(equipment_type, actual)]
          (fst (publish_update_shadow pf [(equipment_type, actual)] (net s)))]"
proof -
  from assms obtain cfg where cfg: "map_of equipment_config equipment_type = Some cfg"
    using kind_known by blast
  show ?thesis
    using cfg
    by (simp add: update_equipment_state_and_shadow_def set_state_known get_state_known
        update_shadow_reported_state_def Let_def split: prod.split)
qed

theorem update_equipment_state_and_shadow_returns_read_back_witness:
  "''blower'' \<in> set [''blower'', ''vibrofeeder''] \<and>
   fst (update_equipment_state_and_shadow dead_board ''blower'' (JBool True) all_off) = Inr False \<and>
   fst (get_state dead_board ''blower''
          (snd (update_equipment_state_and_shadow dead_board ''blower'' (JBool True) all_off)))
     = Inr False \<and>
   trace (snd (update_equipment_state_and_shadow dead_board ''blower'' (JBool True) all_off))
     = [GpioOutput 17 LOW, GpioInput 17 HIGH, UpdateShadow [(''blower'', False)] TimedOut]"
  using update_equipment_state_and_shadow_returns_read_back [of "''blower''" dead_board True all_off]
  by (auto simp: equipment_config_def dead_board_def all_off_def)

text \<open>
  Claim C10. For an identifier that is neither \<open>blower\<close> nor \<open>vibrofeeder\<close>,
  \<open>update_equipment_state_and_shadow\<close> ends with \<open>ValueError\<close> instead of a boolean:
  \<open>set_state\<close> raises it, the handler calls \<open>get_state\<close>, which raises it again. No
  line is touched and nothing is published.
\<close>

theorem update_equipment_state_and_shadow_unknown_kind:
  assumes "equipment_type \<notin> set [''blower'', ''vibrofeeder'']"
  shows "update_equipment_state_and_shadow pf equipment_type is_active s = (Inl ValueError, s)"
proof -
  from assms have "map_of equipment_config equipment_type = None"
    by (rule kind_unknown)
  then show ?thesis
    by (simp add: update_equipment_state_and_shadow_def set_state_unknown get_state_unknown)
qed

theorem update_equipment_state_and_shadow_unknown_kind_witness:
  "''fan'' \<notin> set [''blower'', ''vibrofeeder''] \<and>
   update_equipment_state_and_shadow relay_board ''fan'' (JBool True) all_off
     = (Inl ValueError, all_off)"
  using update_equipment_state_and_shadow_unknown_kind [of "''fan''" relay_board "JBool True" all_off]
  by simp

section \<open>Reported values\<close>


section \<open>One publish for one batch\<close>

text \<open>
  Claim C8. Handling one delta batch issues at most one reported-state publish. When
  the batch names no equipment kind, the device is left as it was and nothing is
  published. When a publish is issued it is the only one of the batch and its document
  has exactly the equipment kinds the batch names as keys: the keys are collected into
  one update, never sent one by one.
\<close>

theorem process_shadow_delta_publishes_once:
  "(equipment_keys delta_state = [] \<longrightarrow> process_shadow_delta pf delta_state s = s) \<and>
   (\<exists>evs. trace (process_shadow_delta pf delta_state s) = trace s @ evs \<and>
      (publishes evs = [] \<or>
       (\<exists>states. publishes evs = [states] \<and>
                 set (map fst states) = set (equipment_keys delta_state))))"
proof (cases "\<exists>items. delta_state = JObj items")
  case False
  then have "process_shadow_delta pf delta_state s = s"
    by (intro process_shadow_delta_not_obj) blast
  then show ?thesis by simp
next
  case True
  then obtain items where obj: "delta_state = JObj items" ..
  obtain r s1 where loop: "process_shadow_delta_loop pf items [] s = (r, s1)"
    by (cases "process_shadow_delta_loop pf items [] s")
  from process_shadow_delta_loop_publishes [of pf items s] loop
  obtain evs where evs: "trace s1 = trace s @ evs" "publishes evs = []"
    by auto
  have keys: "set (equipment_keys delta_state) =
              {k \<in> fst ` set items. k \<in> set [''blower'', ''vibrofeeder'']}"
    by (auto simp: equipment_keys_def obj)
  have first: "equipment_keys delta_state = [] \<longrightarrow> process_shadow_delta pf delta_state s = s"
  proof
    assume "equipment_keys delta_state = []"
    with keys have "\<forall>k \<in> fst ` set items. k \<notin> set [''blower'', ''vibrofeeder'']"
      by auto
    then have "process_shadow_delta_loop pf items [] s = (Inr [], s)"
      by (rule process_shadow_delta_loop_no_kind)
    then show "process_shadow_delta pf delta_state s = s"
      by (simp add: obj process_shadow_delta_obj)
  qed
  have second: "\<exists>evs. trace (process_shadow_delta pf delta_state s) = trace s @ evs \<and>
      (publishes evs = [] \<or>
       (\<exists>states. publishes evs = [states] \<and>
                 set (map fst states) = set (equipment_keys delta_state)))"
  proof (cases r)
    case (Inl e)
    with obj loop evs show ?thesis by (auto simp: process_shadow_delta_obj)
  next
    case (Inr upd)
    show ?thesis
    proof (cases "upd = []")
      case True
      with Inr obj loop evs show ?thesis by (auto simp: process_shadow_delta_obj)
    next
      case False
      let ?e = "UpdateShadow upd (fst (publish_update_shadow pf upd (net s1)))"
      have "fst ` set upd = {k \<in> fst ` set items. k \<in> set [''blower'', ''vibrofeeder'']}"
        using process_shadow_delta_loop_keys [of pf items "[]" s upd] loop Inr by simp
      then have k: "set (map fst upd) = set (equipment_keys delta_state)"
        using keys by simp
      have "trace (process_shadow_delta pf delta_state s) = trace s @ (evs @ [?e])"
        using False Inr obj loop evs(1)
        by (simp add: process_shadow_delta_obj update_shadow_reported_state_trace)
      moreover have "publishes (evs @ [?e]) = [upd]"
        using evs(2) by (simp add: publishes_append)
      ultimately show ?thesis using k by blast
    qed
  qed
  from first second show ?thesis ..
qed

theorem process_shadow_delta_publishes_once_witness:
  "equipment_keys (JObj [(''fan'', JObj [(''is_active'', JBool True)])]) = [] \<and>
   process_shadow_delta relay_board (JObj [(''fan'', JObj [(''is_active'', JBool True)])]) all_off
     = all_off \<and>
   publishes (trace (process_shadow_delta relay_board
      (JObj [(''blower'', JObj [(''is_active'', JBool True)]),
             (''fan'', JObj [(''is_active'', JBool True)]),
             (''vibrofeeder'', JObj [])]) all_off))
     = [[(''blower'', True), (''vibrofeeder'', False)]]"
  using process_shadow_delta_publishes_once
    [of "JObj [(''fan'', JObj [(''is_active'', JBool True)])]" relay_board all_off]
  by (simp add: equipment_keys_def process_shadow_delta_def set_state_def get_state_def
      equipment_config_def update_shadow_reported_state_def relay_board_def all_off_def Let_def)

section \<open>The same delta twice\<close>

text \<open>
  Claim C9. Two deltas in a row for the same kind with the same desired boolean: on a
  platform where writing a level to a line that was just written with that level
  changes nothing (a GPIO output latch), the second delta leaves the hardware as the
  first left it, and each of the two deltas ends with one publish, both reporting the
  same value for the kind.
\<close>

theorem repeated_delta_is_idempotent:
  assumes "k \<in> set [''blower'', ''vibrofeeder'']"
    and "\<forall>p l h. gpio_output pf p l (gpio_output pf p l h) = gpio_output pf p l h"
  shows "\<exists>s1 s2 evs1 evs2 v r1 r2.
     s1 = process_shadow_delta pf (JObj [(k, JObj [(''is_active'', JBool d)])]) s \<and>
     s2 = process_shadow_delta pf (JObj [(k, JObj [(''is_active'', JBool d)])]) s1 \<and>
     hw s2 = hw s1 \<and>
     trace s1 = trace s @ evs1 @ [UpdateShadow [(k, v)] r1] \<and> publishes evs1 = [] \<and>
     trace s2 = trace s1 @ evs2 @ [UpdateShadow [(k, v)] r2] \<and> publishes evs2 = []"
proof -
  from assms(1) obtain cfg where cfg: "map_of equipment_config k = Some cfg"
    using kind_known by blast
  let ?delta = "JObj [(k, JObj [(''is_active'', JBool d)])]"
  let ?lv = "if d then LOW else HIGH"
  let ?s1 = "process_shadow_delta pf ?delta s"
  let ?s2 = "process_shadow_delta pf ?delta ?s1"
  from process_shadow_delta_single [OF cfg, of pf "JBool d" s] obtain l1 r1 where
    1: "l1 = gpio_input pf (pin cfg) (gpio_output pf (pin cfg) ?lv (hw s))"
       "hw ?s1 = gpio_output pf (pin cfg) ?lv (hw s)"
       "trace ?s1 = trace s @ [GpioOutput (pin cfg) ?lv, GpioInput (pin cfg) l1,
                               GpioInput (pin cfg) l1, UpdateShadow [(k, l1 = LOW)] r1]"
    by auto
  from process_shadow_delta_single [OF cfg, of pf "JBool d" ?s1] obtain l2 r2 where
    2: "l2 = gpio_input pf (pin cfg) (gpio_output pf (pin cfg) ?lv (hw ?s1))"
       "hw ?s2 = gpio_output pf (pin cfg) ?lv (hw ?s1)"
       "trace ?s2 = trace ?s1 @ [GpioOutput (pin cfg) ?lv, GpioInput (pin cfg) l2,
                                 GpioInput (pin cfg) l2, UpdateShadow [(k, l2 = LOW)] r2]"
    by auto
  have same: "gpio_output pf (pin cfg) ?lv (hw ?s1) = hw ?s1"
    unfolding 1(2) using assms(2) by blast
  have hw: "hw ?s2 = hw ?s1" using 2(2) same by simp
  have l: "l2 = l1" using 1(1,2) 2(1) same by simp
  let ?e1 = "[GpioOutput (pin cfg) ?lv, GpioInput (pin cfg) l1, GpioInput (pin cfg) l1]"
  have t1: "trace ?s1 = trace s @ ?e1 @ [UpdateShadow [(k, l1 = LOW)] r1]"
    using 1(3) by simp
  have t2: "trace ?s2 = trace ?s1 @ ?e1 @ [UpdateShadow [(k, l1 = LOW)] r2]"
    using 2(3) l by simp
  have p: "publishes ?e1 = []" by simp
  show ?thesis
    by (rule exI [of _ ?s1], rule exI [of _ ?s2], rule exI [of _ ?e1], rule exI [of _ ?e1],
        rule exI [of _ "l1 = LOW"], rule exI [of _ r1], rule exI [of _ r2])
       (intro conjI refl hw t1 t2 p)
qed

theorem repeated_delta_is_idempotent_witness:
  "hw (process_shadow_delta relay_board (JObj [(''blower'', JObj [(''is_active'', JBool True)])])
        (process_shadow_delta relay_board
           (JObj [(''blower'', JObj [(''is_active'', JBool True)])]) all_off))
   = hw (process_shadow_delta relay_board
           (JObj [(''blower'', JObj [(''is_active'', JBool True)])]) all_off) \<and>
   publishes (trace
     (process_shadow_delta relay_board (JObj [(''blower'', JObj [(''is_active'', JBool True)])])
        (process_shadow_delta relay_board
           (JObj [(''blower'', JObj [(''is_active'', JBool True)])]) all_off)))
   = [[(''blower'', True)], [(''blower'', True)]]"
proof -
  have h1: "''blower'' \<in> set [''blower'', ''vibrofeeder'']" by simp
  have h2: "\<forall>p l h. gpio_output relay_board p l (gpio_output relay_board p l h)
              = gpio_output relay_board p l h"
    by (simp add: relay_board_def)
  from repeated_delta_is_idempotent [OF h1 h2, of True all_off]
  obtain s1 s2 evs1 evs2 v r1 r2 where
    r: "s1 = process_shadow_delta relay_board
              (JObj [(''blower'', JObj [(''is_active'', JBool True)])]) all_off"
       "s2 = process_shadow_delta relay_board
              (JObj [(''blower'', JObj [(''is_active'', JBool True)])]) s1"
       "hw s2 = hw s1"
    by blast
  have "publishes (trace
     (process_shadow_delta relay_board (JObj [(''blower'', JObj [(''is_active'', JBool True)])])
        (process_shadow_delta relay_board
           (JObj [(''blower'', JObj [(''is_active'', JBool True)])]) all_off)))
   = [[(''blower'', True)], [(''blower'', True)]]"
    by (simp add: process_shadow_delta_def set_state_def get_state_def
        equipment_config_def update_shadow_reported_state_def relay_board_def all_off_def Let_def)
  with r show ?thesis by simp
qed
section \<open>Keys that name no equipment\<close>




section \<open>The desired value of a payload\<close>




section \<open>Desired states found in the full document\<close>

text \<open>
  Claim C4, as the code has it. Let the full shadow document arrive with an object as
  \<open>desired\<close> section, and let, for every equipment kind that is a key of \<open>desired\<close>,
  the desired entry be an object and the \<open>reported\<close> section be an object in which the
  entry of that kind is missing or an object (a missing, empty or otherwise falsy
  \<open>reported\<close> section is taken as \<open>{}\<close> by the code; other keys of either section are
  free). Then handling the document is running
  \<open>_process_shadow_delta\<close> on \<open>{kind: entry}\<close>, one call after the other in the order of
  \<open>desired\<close>, exactly for the entries that are \<open>pending\<close>: the equipment kinds whose desired
  \<open>is_active\<close> differs from the \<open>is_active\<close> of the reported entry, a kind without reported
  entry counting as an entry without \<open>is_active\<close>. The lines end as after writing the
  desired level of each pending entry, these are the only writes, and one document
  holding that kind alone is published per pending entry. When every equipment kind of
  \<open>desired\<close> has an entry in \<open>reported\<close>, the pending entries are those of the
  specification's wording.
\<close>

theorem pending_desired_states_are_reconciled:
  assumes "cr = (if truthy rep then rep else JObj [])"
    and "\<forall>(k, d) \<in> set items. k \<in> set [''blower'', ''vibrofeeder''] \<longrightarrow>
           is_dict d \<and> (\<exists>c. py_get cr k (JObj []) = Inr c \<and> is_dict c)"
  shows "on_get_shadow_accepted pf
           \<lparr>resp_state = Some \<lparr>desired = JObj items, reported = rep\<rparr>\<rparr> s =
         fold (\<lambda>(k, d). process_shadow_delta pf (JObj [(k, d)])) (filter (pending cr) items) s \<and>
     hw (on_get_shadow_accepted pf
           \<lparr>resp_state = Some \<lparr>desired = JObj items, reported = rep\<rparr>\<rparr> s) =
         fold (\<lambda>(p, lv). gpio_output pf p lv)
           (expected_writes (filter (pending cr) items)) (hw s) \<and>
     (\<exists>evs. trace (on_get_shadow_accepted pf
                \<lparr>resp_state = Some \<lparr>desired = JObj items, reported = rep\<rparr>\<rparr> s) =
              trace s @ evs \<and>
            outputs evs = expected_writes (filter (pending cr) items) \<and>
            map (map fst) (publishes evs) = map (\<lambda>(k, d). [k]) (filter (pending cr) items)) \<and>
     ((\<forall>(k, d) \<in> set items. k \<in> set [''blower'', ''vibrofeeder''] \<longrightarrow>
          (\<exists>rs c. rep = JObj rs \<and> map_of rs k = Some c)) \<longrightarrow>
        filter (pending cr) items = filter (spec_pending rep) items)"
proof -
  let ?r = "\<lparr>resp_state = Some \<lparr>desired = JObj items, reported = rep\<rparr>\<rparr>"
  let ?p = "filter (pending cr) items"
  let ?cycles = "fold (\<lambda>(k, d). process_shadow_delta pf (JObj [(k, d)])) ?p s"
  have run: "on_get_shadow_accepted pf ?r s = ?cycles"
  proof (cases "items = []")
    case True
    then show ?thesis by (simp add: on_get_shadow_accepted_def)
  next
    case False
    have loop: "snd (on_get_shadow_accepted_loop pf cr items s) = ?cycles"
      using on_get_shadow_accepted_loop_fold [OF assms(2), of pf s] by simp
    show ?thesis
    proof (cases "truthy rep")
      case True
      with assms(1) have "cr = rep" by simp
      with loop False True show ?thesis by (simp add: on_get_shadow_accepted_def Let_def)
    next
      case rf: False
      with assms(1) have "cr = JObj []" by simp
      with loop False rf show ?thesis by (simp add: on_get_shadow_accepted_def Let_def)
    qed
  qed
  have shape: "\<forall>(k, d) \<in> set ?p. k \<in> set [''blower'', ''vibrofeeder''] \<and> is_dict d"
  proof (clarify, rule conjI)
    fix k d assume "(k, d) \<in> set ?p"
    then have m: "(k, d) \<in> set items" and p: "pending cr (k, d)" by simp_all
    from p show "k \<in> set [''blower'', ''vibrofeeder'']" by (rule pending_kind)
    with assms(2) m show "is_dict d" by blast
  qed
  note cyc = cycles_run [OF shape, of pf s]
  have same: "filter (pending cr) items = filter (spec_pending rep) items"
    if present: "\<forall>(k, d) \<in> set items. k \<in> set [''blower'', ''vibrofeeder''] \<longrightarrow>
          (\<exists>rs c. rep = JObj rs \<and> map_of rs k = Some c)"
  proof (rule filter_cong [OF refl])
    fix x assume x: "x \<in> set items"
    obtain k d where kd: "x = (k, d)" by (cases x)
    show "pending cr x = spec_pending rep x"
    proof (cases "k \<in> set [''blower'', ''vibrofeeder'']")
      case False
      then show ?thesis by (simp add: kd pending_def spec_pending_def)
    next
      case True
      with present x kd obtain rs c where rep: "rep = JObj rs" and c: "map_of rs k = Some c"
        by blast
      from c have "rs \<noteq> []" by auto
      with rep assms(1) have "cr = JObj rs" by simp
      with pending_present [OF c, of d] rep show ?thesis by (simp add: kd)
    qed
  qed
  show ?thesis
    unfolding run using cyc same by blast
qed

theorem pending_desired_states_are_reconciled_witness:
  "filter (pending (JObj [(''blower'', JObj [(''is_active'', JBool True)]),
                          (''vibrofeeder'', JObj [(''is_active'', JBool True)])]))
     [(''blower'', JObj [(''is_active'', JBool True)]),
      (''vibrofeeder'', JObj [(''is_active'', JBool False)])]
   = [(''vibrofeeder'', JObj [(''is_active'', JBool False)])] \<and>
   on_get_shadow_accepted relay_board
     \<lparr>resp_state = Some
        \<lparr>desired = JObj [(''blower'', JObj [(''is_active'', JBool True)]),
                         (''vibrofeeder'', JObj [(''is_active'', JBool False)])],
         reported = JObj [(''blower'', JObj [(''is_active'', JBool True)]),
                          (''vibrofeeder'', JObj [(''is_active'', JBool True)])]\<rparr>\<rparr> all_off
   = process_shadow_delta relay_board
       (JObj [(''vibrofeeder'', JObj [(''is_active'', JBool False)])]) all_off \<and>
   trace (on_get_shadow_accepted relay_board
     \<lparr>resp_state = Some
        \<lparr>desired = JObj [(''blower'', JObj [(''is_active'', JBool True)]),
                         (''vibrofeeder'', JObj [(''is_active'', JBool False)])],
         reported = JObj [(''blower'', JObj [(''is_active'', JBool True)]),
                          (''vibrofeeder'', JObj [(''is_active'', JBool True)])]\<rparr>\<rparr> all_off)
   = [GpioOutput 27 HIGH, GpioInput 27 HIGH, GpioInput 27 HIGH,
      UpdateShadow [(''vibrofeeder'', False)] Acked]"
proof -
  let ?des = "[(''blower'', JObj [(''is_active'', JBool True)]),
               (''vibrofeeder'', JObj [(''is_active'', JBool False)])]"
  let ?rep = "JObj [(''blower'', JObj [(''is_active'', JBool True)]),
                    (''vibrofeeder'', JObj [(''is_active'', JBool True)])]"
  have h1: "?rep = (if truthy ?rep then ?rep else JObj [])" by simp
  have h2: "\<forall>(k, d) \<in> set ?des. k \<in> set [''blower'', ''vibrofeeder''] \<longrightarrow>
              is_dict d \<and> (\<exists>c. py_get ?rep k (JObj []) = Inr c \<and> is_dict c)"
    by simp
  have p: "filter (pending ?rep) ?des = [(''vibrofeeder'', JObj [(''is_active'', JBool False)])]"
    by (simp add: pending_def)
  from pending_desired_states_are_reconciled [OF h1 h2, of relay_board all_off]
  have run: "on_get_shadow_accepted relay_board
       \<lparr>resp_state = Some \<lparr>desired = JObj ?des, reported = ?rep\<rparr>\<rparr> all_off =
     fold (\<lambda>(k, d). process_shadow_delta relay_board (JObj [(k, d)]))
       (filter (pending ?rep) ?des) all_off"
    by (rule conjunct1)
  have t: "trace (process_shadow_delta relay_board
       (JObj [(''vibrofeeder'', JObj [(''is_active'', JBool False)])]) all_off)
     = [GpioOutput 27 HIGH, GpioInput 27 HIGH, GpioInput 27 HIGH,
        UpdateShadow [(''vibrofeeder'', False)] Acked]"
    by (simp add: process_shadow_delta_def set_state_def
        get_state_def equipment_config_def update_shadow_reported_state_def relay_board_def
        all_off_def Let_def)
  show ?thesis
    unfolding run p using t by simp
qed

text \<open>
  Claim C4 as worded does not hold: a kind need not be present in \<open>reported\<close>. With
  \<open>blower\<close> desired on and no \<open>blower\<close> entry in \<open>reported\<close>, no kind is present in both
  sections with differing values, yet the blower is switched and reported.
\<close>

theorem absent_reported_kind_counterexample:
  "filter (spec_pending (JObj [(''vibrofeeder'', JObj [(''is_active'', JBool False)])]))
     [(''blower'', JObj [(''is_active'', JBool True)])] = [] \<and>
   outputs (trace (on_get_shadow_accepted relay_board
     \<lparr>resp_state = Some
        \<lparr>desired = JObj [(''blower'', JObj [(''is_active'', JBool True)])],
         reported = JObj [(''vibrofeeder'', JObj [(''is_active'', JBool False)])]\<rparr>\<rparr> all_off))
   = [(17, LOW)] \<and>
   publishes (trace (on_get_shadow_accepted relay_board
     \<lparr>resp_state = Some
        \<lparr>desired = JObj [(''blower'', JObj [(''is_active'', JBool True)])],
         reported = JObj [(''vibrofeeder'', JObj [(''is_active'', JBool False)])]\<rparr>\<rparr> all_off))
   = [[(''blower'', True)]]"
  by (simp add: spec_pending_def on_get_shadow_accepted_def process_shadow_delta_def set_state_def
      get_state_def equipment_config_def update_shadow_reported_state_def relay_board_def
      all_off_def Let_def)

section \<open>The readiness flag\<close>





end
